theory Spec2Isabelle
  imports Main "HOL-Library.AList"
begin

section \<open>Values and exceptions\<close>

text \<open>
  The values a record field holds: JSON scalars (JSON null is Python's \<open>None\<close>) and the
  sentinel \<open>no_default\<close> of \<open>eta.core.config\<close>, which marks an optional argument that was
  not supplied. A JSON dictionary cannot hold the sentinel, so the two are different
  types. Floats, booleans and nested lists or dictionaries are outside the model.
\<close>

datatype json = JNull | JStr string | JInt int

datatype pyval = no_default | Json json

text \<open>
  The exceptions the modelled code raises. \<open>DataFileSequenceError\<close> and
  \<open>DataRecordsError\<close> are the two exception classes of \<open>data.py\<close>; the message says
  which \<open>raise\<close> statement it was. The others are Python's own.
\<close>

datatype message =
    Msg_no_match string
  | Msg_immutable
  | Msg_out_of_bounds int int int
  | Msg_nonnegative
  | Msg_extend int int int
  | Msg_need_record_cls
  | Msg_keep_or_remove

datatype exn =
    DataFileSequenceError message
  | DataRecordsError message
  | KeyError pyval
  | AttributeError string
  | TypeError
  | StopIteration

section \<open>DataFileSequence\<close>

text \<open>
  The attributes of a \<open>DataFileSequence\<close>: \<open>lower_bound\<close>, \<open>upper_bound\<close> and
  \<open>iter_index\<close> are the private \<open>_lower_bound\<close>, \<open>_upper_bound\<close>, \<open>_iter_index\<close>
  (the property getters return them as they are). \<open>_extension\<close> is not read by any
  operation below and is left out.
\<close>

record DataFileSequence =
  sequence :: string
  immutable_bounds :: bool
  lower_bound :: int
  upper_bound :: int
  iter_index :: "int option"

text \<open>
  The value of the Python expression \<open>pattern % index\<close>: the printf-style pattern
  instantiated with the index. The formatting is Python's own; a path is represented by
  the pattern and the index it was made from.
\<close>

datatype path = Format string int

text \<open>
  Modelled from the spec: \<open>eta.core.utils.parse_bounds_from_pattern\<close> is not among the
  sources. The spec says the bounds are the closed index interval inferred by scanning the
  files on disk that match the pattern, and that there are none when no file matches. The
  scan is represented by its result, the indices of the matching files.
\<close>

definition parse_bounds_from_pattern :: "int list \<Rightarrow> int option \<times> int option" where
  "parse_bounds_from_pattern indices =
     (if indices = [] then (None, None)
      else (Some (Min (set indices)), Some (Max (set indices))))"

text \<open>\<open>__init__\<close>; the first argument stands for the files on disk.\<close>

definition DataFileSequence_init ::
    "int list \<Rightarrow> string \<Rightarrow> bool \<Rightarrow> exn + DataFileSequence" where
  "DataFileSequence_init disk sequence' immutable_bounds' =
     (case parse_bounds_from_pattern disk of
        (Some l, Some u) \<Rightarrow>
          Inr \<lparr>sequence = sequence', immutable_bounds = immutable_bounds',
               lower_bound = l, upper_bound = u, iter_index = None\<rparr>
      | _ \<Rightarrow> Inl (DataFileSequenceError (Msg_no_match sequence')))"

definition check_bounds :: "DataFileSequence \<Rightarrow> int \<Rightarrow> bool" where
  "check_bounds s index =
     (if index < lower_bound s \<or> index > upper_bound s then False else True)"

text \<open>
  Operations that mutate the object return the result (or the exception raised) together
  with the object as it is afterwards.
\<close>

definition gen_path :: "DataFileSequence \<Rightarrow> int \<Rightarrow> (exn + path) \<times> DataFileSequence" where
  "gen_path s index =
     (if immutable_bounds s then
        (if \<not> check_bounds s index
         then (Inl (DataFileSequenceError
                 (Msg_out_of_bounds index (lower_bound s) (upper_bound s))), s)
         else (Inr (Format (sequence s) index), s))
      else if index < 0 then (Inl (DataFileSequenceError Msg_nonnegative), s)
      else if index = lower_bound s - 1
        then (Inr (Format (sequence s) index), s\<lparr>lower_bound := index\<rparr>)
      else if index = upper_bound s + 1
        then (Inr (Format (sequence s) index), s\<lparr>upper_bound := index\<rparr>)
      else if \<not> check_bounds s index
        then (Inl (DataFileSequenceError
                (Msg_extend index (lower_bound s) (upper_bound s))), s)
      else (Inr (Format (sequence s) index), s))"

text \<open>The setters of the properties \<open>lower_bound\<close> and \<open>upper_bound\<close>.\<close>

definition set_lower_bound :: "DataFileSequence \<Rightarrow> int \<Rightarrow> (exn + unit) \<times> DataFileSequence" where
  "set_lower_bound s v =
     (if immutable_bounds s then (Inl (DataFileSequenceError Msg_immutable), s)
      else (Inr (), s\<lparr>lower_bound := min v (upper_bound s)\<rparr>))"

definition set_upper_bound :: "DataFileSequence \<Rightarrow> int \<Rightarrow> (exn + unit) \<times> DataFileSequence" where
  "set_upper_bound s v =
     (if immutable_bounds s then (Inl (DataFileSequenceError Msg_immutable), s)
      else (Inr (), s\<lparr>upper_bound := max v (lower_bound s)\<rparr>))"

text \<open>\<open>__iter__\<close> and \<open>__next__\<close>. Adding one to a cursor that is \<open>None\<close> is a TypeError.\<close>

definition dunder_iter :: "DataFileSequence \<Rightarrow> DataFileSequence" where
  "dunder_iter s = s\<lparr>iter_index := Some (lower_bound s - 1)\<rparr>"

definition dunder_next :: "DataFileSequence \<Rightarrow> (exn + path) \<times> DataFileSequence" where
  "dunder_next s =
     (case iter_index s of
        None \<Rightarrow> (Inl TypeError, s)
      | Some i \<Rightarrow>
          (let s1 = s\<lparr>iter_index := Some (i + 1)\<rparr>
           in if \<not> check_bounds s1 (i + 1)
              then (Inl StopIteration, s1\<lparr>iter_index := None\<rparr>)
              else gen_path s1 (i + 1)))"

text \<open>
  \<open>for p in s\<close>, collecting the paths: \<open>__iter__\<close> once, then \<open>__next__\<close> until it raises
  \<open>StopIteration\<close>. Any other exception ends the loop and is the result.
\<close>

definition cursor_distance :: "DataFileSequence \<Rightarrow> nat" where
  "cursor_distance s =
     (case iter_index s of None \<Rightarrow> 0 | Some i \<Rightarrow> nat (upper_bound s - i))"

function drain :: "DataFileSequence \<Rightarrow> path list \<Rightarrow> (exn + path list) \<times> DataFileSequence" where
  "drain s acc =
     (case dunder_next s of
        (Inr p, s') \<Rightarrow> drain s' (acc @ [p])
      | (Inl StopIteration, s') \<Rightarrow> (Inr acc, s')
      | (Inl e, s') \<Rightarrow> (Inl e, s'))"
  by pat_completeness auto
termination
proof (relation "measure (\<lambda>(s, acc). cursor_distance s)", goal_cases)
  case 1
  show ?case by simp
next
  case (2 s acc r s' p)
  then have nx: "dunder_next s = (Inr p, s')" by simp
  have "cursor_distance s' < cursor_distance s"
  proof (cases "iter_index s")
    case None
    with nx show ?thesis by (simp add: dunder_next_def)
  next
    case (Some i)
    with nx have inb: "check_bounds (s\<lparr>iter_index := Some (i + 1)\<rparr>) (i + 1)"
      by (auto simp: dunder_next_def Let_def split: if_splits)
    with nx Some have g: "gen_path (s\<lparr>iter_index := Some (i + 1)\<rparr>) (i + 1) = (Inr p, s')"
      by (simp add: dunder_next_def Let_def)
    from inb have le: "lower_bound s \<le> i + 1" "i + 1 \<le> upper_bound s"
      by (auto simp: check_bounds_def split: if_splits)
    from g le have "iter_index s' = Some (i + 1) \<and> upper_bound s' = upper_bound s"
      by (auto simp: gen_path_def check_bounds_def split: if_splits)
    with Some le show ?thesis by (simp add: cursor_distance_def)
  qed
  then show ?case by simp
qed

declare drain.simps [simp del]

definition iterate :: "DataFileSequence \<Rightarrow> (exn + path list) \<times> DataFileSequence" where
  "iterate s = drain (dunder_iter s) []"

text \<open>The operations on a sequence, and the object after one of them or a list of them.\<close>

datatype operation =
    Gen_path int
  | Getitem int
  | Set_lower_bound int
  | Set_upper_bound int
  | Check_bounds int
  | Iter
  | Next
  | Iterate

fun after :: "DataFileSequence \<Rightarrow> operation \<Rightarrow> DataFileSequence" where
  "after s (Gen_path i) = snd (gen_path s i)"
| "after s (Getitem i) = snd (gen_path s i)"
| "after s (Set_lower_bound v) = snd (set_lower_bound s v)"
| "after s (Set_upper_bound v) = snd (set_upper_bound s v)"
| "after s (Check_bounds i) = s"
| "after s Iter = dunder_iter s"
| "after s Next = snd (dunder_next s)"
| "after s Iterate = snd (iterate s)"

text \<open>
  The running example of the spec: files \<open>frame-00003.png\<close> to \<open>frame-00010.png\<close> on disk.
\<close>

definition frames :: "bool \<Rightarrow> DataFileSequence" where
  "frames immutable =
     \<lparr>sequence = ''frame-%05d.png'', immutable_bounds = immutable,
      lower_bound = 3, upper_bound = 10, iter_index = None\<rparr>"

section \<open>BaseDataRecord\<close>

text \<open>
  A Python dictionary: the keys in insertion order, each once. \<open>map_of\<close> reads it,
  \<open>AList.update\<close> is the assignment \<open>d[k] = v\<close>, \<open>AList.delete\<close> is \<open>del d[k]\<close>.
  An instance of a record class is its attribute dictionary.
\<close>

type_synonym 'v dict = "(string \<times> 'v) list"

type_synonym data_record = "pyval dict"

definition hasattr :: "data_record \<Rightarrow> string \<Rightarrow> bool" where
  "hasattr self a = (map_of self a \<noteq> None)"

definition getattr :: "data_record \<Rightarrow> string \<Rightarrow> exn + pyval" where
  "getattr self a = (case map_of self a of None \<Rightarrow> Inl (AttributeError a) | Some v \<Rightarrow> Inr v)"

definition setattr :: "data_record \<Rightarrow> string \<Rightarrow> pyval \<Rightarrow> data_record" where
  "setattr self a v = AList.update a v self"

definition delattr :: "data_record \<Rightarrow> string \<Rightarrow> data_record" where
  "delattr self a = AList.delete a self"

text \<open>
  A record class: its name and what its class methods \<open>required()\<close>, \<open>optional()\<close> and
  \<open>excluded()\<close> return. \<open>BaseDataRecord\<close> itself returns three empty lists.
\<close>

record record_cls =
  cls_name :: string
  required :: "string list"
  optional :: "string list"
  excluded :: "string list"

definition BaseDataRecord :: record_cls where
  "BaseDataRecord =
     \<lparr>cls_name = ''eta.core.data.BaseDataRecord'', required = [], optional = [], excluded = []\<rparr>"

definition LabeledVideoRecord :: record_cls where
  "LabeledVideoRecord =
     \<lparr>cls_name = ''eta.core.data.LabeledVideoRecord'',
      required = [''video_path'', ''label''], optional = [''group''], excluded = []\<rparr>"

definition clean_optional :: "record_cls \<Rightarrow> data_record \<Rightarrow> data_record" where
  "clean_optional cls self =
     fold (\<lambda>a self. if hasattr self a \<and> getattr self a = Inr no_default
                     then delattr self a else self)
       (optional cls) self"

text \<open>\<open>BaseDataRecord.__init__\<close>, which every record constructor calls last.\<close>

definition BaseDataRecord_init :: "record_cls \<Rightarrow> data_record \<Rightarrow> data_record" where
  "BaseDataRecord_init cls self = clean_optional cls self"

text \<open>\<open>LabeledVideoRecord.__init__(video_path, label, group=no_default)\<close>.\<close>

definition LabeledVideoRecord_init :: "pyval \<Rightarrow> pyval \<Rightarrow> pyval \<Rightarrow> data_record" where
  "LabeledVideoRecord_init video_path label group' =
     (let self = setattr [] ''video_path'' video_path;
          self = setattr self ''label'' label;
          self = setattr self ''group'' group'
      in BaseDataRecord_init LabeledVideoRecord self)"

text \<open>
  The call \<open>cls(**kwargs)\<close> for a record class written as \<open>LabeledVideoRecord\<close> is: the
  constructor has one parameter for each required name and one parameter defaulting to
  \<open>no_default\<close> for each optional name, stores each as the attribute of that name, and
  calls the base constructor. Python raises a \<open>TypeError\<close> for a keyword that is no
  parameter and for a parameter without default that is not supplied.
\<close>

definition record_init :: "record_cls \<Rightarrow> pyval dict \<Rightarrow> exn + data_record" where
  "record_init cls kwargs =
     (if list_ex (\<lambda>k. k \<notin> set (required cls) \<and> k \<notin> set (optional cls)) (map fst kwargs)
        then Inl TypeError
      else if list_ex (\<lambda>r. map_of kwargs r = None) (required cls)
        then Inl TypeError
      else
        (let self = fold (\<lambda>r self.
                      setattr self r (case map_of kwargs r of None \<Rightarrow> no_default | Some v \<Rightarrow> v))
                    (required cls) [];
             self = fold (\<lambda>a self.
                      setattr self a (case map_of kwargs a of None \<Rightarrow> no_default | Some v \<Rightarrow> v))
                    (optional cls) self
         in Inr (BaseDataRecord_init cls self)))"

text \<open>
  \<open>BaseDataRecord.from_dict\<close>. The first comprehension reads \<open>d[k]\<close> for each required
  name in turn and raises \<open>KeyError(k)\<close> at the first one that is no key of \<open>d\<close>.
\<close>

fun required_kwargs :: "json dict \<Rightarrow> string list \<Rightarrow> pyval dict \<Rightarrow> exn + pyval dict" where
  "required_kwargs d [] kwargs = Inr kwargs"
| "required_kwargs d (k # ks) kwargs =
     (case map_of d k of
        None \<Rightarrow> Inl (KeyError (Json (JStr k)))
      | Some v \<Rightarrow> required_kwargs d ks (AList.update k (Json v) kwargs))"

definition optional_kwargs :: "json dict \<Rightarrow> string list \<Rightarrow> pyval dict \<Rightarrow> pyval dict" where
  "optional_kwargs d ks kwargs =
     fold (\<lambda>k kwargs. case map_of d k of None \<Rightarrow> kwargs
                                       | Some v \<Rightarrow> AList.update k (Json v) kwargs)
       ks kwargs"

definition BaseDataRecord_from_dict :: "record_cls \<Rightarrow> json dict \<Rightarrow> exn + data_record" where
  "BaseDataRecord_from_dict cls d =
     (case required_kwargs d (required cls) [] of
        Inl e \<Rightarrow> Inl e
      | Inr kwargs \<Rightarrow> record_init cls (optional_kwargs d (optional cls) kwargs))"

text \<open>A private attribute is one whose name starts with an underscore.\<close>

definition is_private :: "string \<Rightarrow> bool" where
  "is_private a = (case a of [] \<Rightarrow> False | c # _ \<Rightarrow> c = CHR ''_'')"

text \<open>
  Modelled from the spec: \<open>Serializable.attributes\<close> of \<open>eta.core.serial\<close> is not among the
  sources. The spec's serializable fields are all instance fields that are not private, and
  the docstring of \<open>BaseDataRecord.attributes\<close> says which attributes are private.
\<close>

definition Serializable_attributes :: "data_record \<Rightarrow> string list" where
  "Serializable_attributes self = filter (\<lambda>a. \<not> is_private a) (map fst self)"

text \<open>\<open>BaseDataRecord.attributes\<close>.\<close>

definition attributes :: "record_cls \<Rightarrow> data_record \<Rightarrow> string list" where
  "attributes cls self = filter (\<lambda>a. a \<notin> set (excluded cls)) (Serializable_attributes self)"

text \<open>A record dictionary with both required fields, the optional one and an unknown key.\<close>

definition cat_dict :: "json dict" where
  "cat_dict = [(''label'', JStr ''cat''), (''video_path'', JStr ''a.mp4''),
               (''group'', JNull), (''frames'', JInt 30)]"

section \<open>DataRecords\<close>

text \<open>
  What the attribute \<open>_ELE_CLS\<close> of a \<open>DataRecords\<close> instance holds: the constructor stores
  its argument \<open>record_cls\<close> as it is, and \<open>DataRecords.from_dict\<close> passes either the class
  it was given or the value found in the dictionary, which in a JSON dictionary is a
  string.
\<close>

datatype rc_value = ClassObj record_cls | StrObj string

text \<open>
  Modelled from the spec: the base class \<open>Container\<close> of \<open>eta.core.serial\<close> is not among the
  sources. The spec's container holds an ordered sequence of elements of one declared
  element class; for \<open>DataRecords\<close> the attribute of the elements (\<open>_ELE_ATTR\<close>) is
  \<open>records\<close>, and \<open>__elements__\<close> reads it.
\<close>

record DataRecords =
  ELE_CLS :: rc_value
  records :: "data_record list"

text \<open>
  \<open>DataRecords.__init__(record_cls, records=...)\<close>: it stores the record class and hands
  the records to the constructor of \<open>Container\<close>, which keeps them as the elements.
\<close>

definition DataRecords_init :: "rc_value \<Rightarrow> data_record list \<Rightarrow> DataRecords" where
  "DataRecords_init record_cls' records' = \<lparr>ELE_CLS = record_cls', records = records'\<rparr>"

text \<open>
  Modelled from the spec: \<open>Container.keep_inds\<close> is the spec's \<open>filter_by_indices\<close>, which
  keeps only the elements at the given positions, preserving their relative order, and
  mutates in place.
\<close>

definition keep_inds :: "DataRecords \<Rightarrow> nat list \<Rightarrow> DataRecords" where
  "keep_inds self inds =
     self\<lparr>records := map snd (filter (\<lambda>(i, r). i \<in> set inds) (enumerate 0 (records self)))\<rparr>"

text \<open>
  \<open>build_keyset\<close>: the loop adds each record's value of the field to a set, and the result
  is the list of that set. The order of a Python set is unspecified; only the set of the
  result means something.
\<close>

fun build_keyset_loop :: "data_record list \<Rightarrow> string \<Rightarrow> pyval list \<Rightarrow> exn + pyval list" where
  "build_keyset_loop [] field keys = Inr keys"
| "build_keyset_loop (r # rs) field keys =
     (case getattr r field of
        Inl e \<Rightarrow> Inl e
      | Inr v \<Rightarrow> build_keyset_loop rs field (List.insert v keys))"

definition build_keyset :: "DataRecords \<Rightarrow> string \<Rightarrow> exn + pyval list" where
  "build_keyset self field = build_keyset_loop (records self) field []"

text \<open>
  \<open>build_lookup\<close>: a dictionary from each value of the field to the indices of the
  records holding it. \<open>lud[v].append(i)\<close> on a \<open>defaultdict(list)\<close> starts from the empty
  list when \<open>v\<close> is no key yet. The result is a plain \<open>dict\<close>.
\<close>

type_synonym lookup = "(pyval \<times> nat list) list"

definition defaultdict_get :: "lookup \<Rightarrow> pyval \<Rightarrow> nat list" where
  "defaultdict_get lud v = (case map_of lud v of None \<Rightarrow> [] | Some inds \<Rightarrow> inds)"

fun build_lookup_loop :: "(nat \<times> data_record) list \<Rightarrow> string \<Rightarrow> lookup \<Rightarrow> exn + lookup" where
  "build_lookup_loop [] field lud = Inr lud"
| "build_lookup_loop ((i, r) # rest) field lud =
     (case getattr r field of
        Inl e \<Rightarrow> Inl e
      | Inr v \<Rightarrow>
          build_lookup_loop rest field
            (AList.update v (defaultdict_get lud v @ [i]) lud))"

definition build_lookup :: "DataRecords \<Rightarrow> string \<Rightarrow> exn + lookup" where
  "build_lookup self field = build_lookup_loop (enumerate 0 (records self)) field []"

text \<open>
  \<open>cull\<close>. An argument that is \<open>None\<close> or empty is false in a condition. The loop
  \<open>for v in keep_values: inds += lud[v]\<close> raises \<open>KeyError(v)\<close> when \<open>v\<close> is no key of the
  plain dictionary. When \<open>remove_values\<close> is given, \<open>keep_values\<close> is a Python set, iterated
  in an unspecified order; the model iterates it in the order of the dictionary's keys.
\<close>

fun truthy :: "'a list option \<Rightarrow> bool" where
  "truthy None = False"
| "truthy (Some xs) = (xs \<noteq> [])"

fun elements_of :: "'a list option \<Rightarrow> 'a list" where
  "elements_of None = []"
| "elements_of (Some xs) = xs"

fun cull_inds :: "lookup \<Rightarrow> pyval list \<Rightarrow> nat list \<Rightarrow> exn + nat list" where
  "cull_inds lud [] inds = Inr inds"
| "cull_inds lud (v # vs) inds =
     (case map_of lud v of
        None \<Rightarrow> Inl (KeyError v)
      | Some found \<Rightarrow> cull_inds lud vs (inds @ found))"

definition cull ::
    "DataRecords \<Rightarrow> string \<Rightarrow> pyval list option \<Rightarrow> pyval list option
       \<Rightarrow> (exn + nat) \<times> DataRecords" where
  "cull self field keep_values remove_values =
     (case build_lookup self field of
        Inl e \<Rightarrow> (Inl e, self)
      | Inr lud \<Rightarrow>
          (let keep_values =
                 (if truthy remove_values
                  then Some (filter (\<lambda>k. k \<notin> set (elements_of remove_values)) (map fst lud))
                  else keep_values)
           in if \<not> truthy keep_values
              then (Inl (DataRecordsError Msg_keep_or_remove), self)
              else (case cull_inds lud (elements_of keep_values) [] of
                      Inl e \<Rightarrow> (Inl e, self)
                    | Inr inds \<Rightarrow>
                        (let self' = keep_inds self inds
                         in (Inr (length (records self')), self')))))"

text \<open>
  The dictionary of a \<open>DataRecords\<close> container, as \<open>DataRecords.from_dict\<close> reads it: the
  value under \<open>_CLS\<close>, the value under \<open>_RECORD_CLS\<close> (the class attribute
  \<open>_ELE_CLS_FIELD\<close>) and the value under \<open>records\<close> (\<open>_ELE_ATTR\<close>), each \<open>None\<close> when the
  key is absent. In a JSON dictionary a tag is a string and the records are a list of
  record dictionaries.
\<close>

record records_dict =
  CLS_entry :: "string option"
  RECORD_CLS_entry :: "string option"
  records_entry :: "json dict list option"

text \<open>
  The call \<open>rc.from_dict(r)\<close>: on a record class it is \<open>BaseDataRecord.from_dict\<close>; a
  string has no attribute \<open>from_dict\<close>.
\<close>

fun rc_from_dict :: "rc_value \<Rightarrow> json dict \<Rightarrow> exn + data_record" where
  "rc_from_dict (ClassObj c) r = BaseDataRecord_from_dict c r"
| "rc_from_dict (StrObj s) r = Inl (AttributeError ''from_dict'')"

fun from_dict_each :: "rc_value \<Rightarrow> json dict list \<Rightarrow> exn + data_record list" where
  "from_dict_each rc [] = Inr []"
| "from_dict_each rc (r # rs) =
     (case rc_from_dict rc r of
        Inl e \<Rightarrow> Inl e
      | Inr x \<Rightarrow> (case from_dict_each rc rs of Inl e \<Rightarrow> Inl e | Inr xs \<Rightarrow> Inr (x # xs)))"

text \<open>\<open>DataRecords.from_dict(d, record_cls=None)\<close>.\<close>

definition DataRecords_from_dict :: "records_dict \<Rightarrow> record_cls option \<Rightarrow> exn + DataRecords" where
  "DataRecords_from_dict d record_cls' =
     (let rc = (case record_cls' of
                  Some c \<Rightarrow> Some (ClassObj c)
                | None \<Rightarrow> map_option StrObj (RECORD_CLS_entry d))
      in case rc of
           None \<Rightarrow> Inl (DataRecordsError Msg_need_record_cls)
         | Some rc \<Rightarrow>
             (case records_entry d of
                None \<Rightarrow> Inl (KeyError (Json (JStr ''records'')))
              | Some rs \<Rightarrow>
                  (case from_dict_each rc rs of
                     Inl e \<Rightarrow> Inl e
                   | Inr xs \<Rightarrow> Inr (DataRecords_init rc xs))))"

text \<open>
  Modelled from the spec: \<open>serialize\<close> of \<open>eta.core.serial\<close> is not among the sources. The
  spec's \<open>to_map\<close> emits the tag of the concrete container class and, under the attribute
  of the elements, one map for each element, holding the tag with the fully-qualified name
  of the element class and the element's serializable fields. A field holding the
  sentinel has no JSON value.
\<close>

fun serialize_fields :: "data_record \<Rightarrow> string list \<Rightarrow> exn + json dict" where
  "serialize_fields self [] = Inr []"
| "serialize_fields self (a # as) =
     (case map_of self a of
        Some (Json j) \<Rightarrow>
          (case serialize_fields self as of Inl e \<Rightarrow> Inl e | Inr d \<Rightarrow> Inr ((a, j) # d))
      | _ \<Rightarrow> Inl TypeError)"

text \<open>
  Modelled from the spec: the map of each element, the tag of the element class first.
\<close>

fun serialize_each :: "record_cls \<Rightarrow> data_record list \<Rightarrow> exn + json dict list" where
  "serialize_each c [] = Inr []"
| "serialize_each c (r # rs) =
     (case serialize_fields r (attributes c r) of
        Inl e \<Rightarrow> Inl e
      | Inr d \<Rightarrow>
          (case serialize_each c rs of
             Inl e \<Rightarrow> Inl e
           | Inr ds \<Rightarrow> Inr (((''_RECORD_CLS'', JStr (cls_name c)) # d) # ds)))"

text \<open>
  Modelled from the spec: the map of the container. The name of the record class is read
  from the class, so a container whose \<open>_ELE_CLS\<close> is no class has no map.
\<close>

definition to_dict :: "DataRecords \<Rightarrow> exn + records_dict" where
  "to_dict self =
     (case ELE_CLS self of
        StrObj s \<Rightarrow> Inl (AttributeError ''__name__'')
      | ClassObj c \<Rightarrow>
          (case serialize_each c (records self) of
             Inl e \<Rightarrow> Inl e
           | Inr ds \<Rightarrow>
               Inr \<lparr>CLS_entry = Some ''eta.core.data.DataRecords'',
                    RECORD_CLS_entry = None,
                    records_entry = Some ds\<rparr>))"

text \<open>A container of three labeled videos, the first of them without a group.\<close>

definition videos :: DataRecords where
  "videos = DataRecords_init (ClassObj LabeledVideoRecord)
     [LabeledVideoRecord_init (Json (JStr ''a.mp4'')) (Json (JStr ''cat'')) no_default,
      LabeledVideoRecord_init (Json (JStr ''b.mp4'')) (Json (JStr ''dog'')) (Json (JStr ''g1'')),
      LabeledVideoRecord_init (Json (JStr ''c.mp4'')) (Json (JStr ''cat'')) (Json (JStr ''g1''))]"

text \<open>What the spec's \<open>to_map\<close> emits for that container.\<close>

definition videos_dict :: records_dict where
  "videos_dict =
     \<lparr>CLS_entry = Some ''eta.core.data.DataRecords'',
      RECORD_CLS_entry = None,
      records_entry = Some
        [[(''_RECORD_CLS'', JStr ''eta.core.data.LabeledVideoRecord''),
          (''video_path'', JStr ''a.mp4''), (''label'', JStr ''cat'')],
         [(''_RECORD_CLS'', JStr ''eta.core.data.LabeledVideoRecord''),
          (''video_path'', JStr ''b.mp4''), (''label'', JStr ''dog''), (''group'', JStr ''g1'')],
         [(''_RECORD_CLS'', JStr ''eta.core.data.LabeledVideoRecord''),
          (''video_path'', JStr ''c.mp4''), (''label'', JStr ''cat''), (''group'', JStr ''g1'')]]\<rparr>"

section \<open>The running example is constructible\<close>

lemma frames_init:
  "DataFileSequence_init [3, 4, 5, 6, 7, 8, 9, 10] ''frame-%05d.png'' immutable
     = Inr (frames immutable)"
  by (simp add: DataFileSequence_init_def parse_bounds_from_pattern_def frames_def)

section \<open>Path generation with immutable bounds\<close>

text \<open>
  Claim C5. For an immutable sequence with bounds \<open>[l, u]\<close>, \<open>gen_path index\<close> raises
  the out-of-bounds error exactly when \<open>index < l\<close> or \<open>index > u\<close>; otherwise it returns
  the pattern instantiated with the index. In both cases the object, and so both bounds,
  is as it was before the call.
\<close>

theorem gen_path_immutable:
  assumes "immutable_bounds s"
  shows "(fst (gen_path s index) =
            Inl (DataFileSequenceError
                  (Msg_out_of_bounds index (lower_bound s) (upper_bound s)))
          \<longleftrightarrow> index < lower_bound s \<or> index > upper_bound s)
       \<and> (\<not> (index < lower_bound s \<or> index > upper_bound s)
            \<longrightarrow> fst (gen_path s index) = Inr (Format (sequence s) index))
       \<and> ((\<exists>e. fst (gen_path s index) = Inl e)
            \<longleftrightarrow> index < lower_bound s \<or> index > upper_bound s)
       \<and> snd (gen_path s index) = s"
  using assms by (simp add: gen_path_def check_bounds_def)

theorem gen_path_immutable_witness:
  "immutable_bounds (frames True)
   \<and> fst (gen_path (frames True) 3) = Inr (Format ''frame-%05d.png'' 3)
   \<and> fst (gen_path (frames True) 2) = Inl (DataFileSequenceError (Msg_out_of_bounds 2 3 10))
   \<and> fst (gen_path (frames True) 11) = Inl (DataFileSequenceError (Msg_out_of_bounds 11 3 10))
   \<and> snd (gen_path (frames True) 11) = frames True"
  using gen_path_immutable [of "frames True" 3] gen_path_immutable [of "frames True" 2]
    gen_path_immutable [of "frames True" 11]
  by (simp add: frames_def)

section \<open>Path generation with mutable bounds\<close>

text \<open>
  Claim C4. For a mutable sequence with bounds \<open>[l, u]\<close>, the cases of \<open>gen_path index\<close>
  in the order the claim lists them: a negative index raises an error; otherwise
  \<open>index = l - 1\<close> succeeds and sets \<open>lower_bound\<close> to the index, \<open>index = u + 1\<close> succeeds
  and sets \<open>upper_bound\<close> to the index, an index inside \<open>[l, u]\<close> succeeds and changes
  nothing, and any other index raises the error that says a mutable sequence can be
  extended by at most one index. A call that does not raise returns the pattern
  instantiated with the index.
\<close>

theorem gen_path_mutable:
  assumes "\<not> immutable_bounds s" and "lower_bound s \<le> upper_bound s"
  shows "(index < 0 \<longrightarrow> gen_path s index = (Inl (DataFileSequenceError Msg_nonnegative), s))
       \<and> (0 \<le> index \<and> index = lower_bound s - 1 \<longrightarrow>
            gen_path s index = (Inr (Format (sequence s) index), s\<lparr>lower_bound := index\<rparr>))
       \<and> (0 \<le> index \<and> index = upper_bound s + 1 \<longrightarrow>
            gen_path s index = (Inr (Format (sequence s) index), s\<lparr>upper_bound := index\<rparr>))
       \<and> (0 \<le> index \<and> lower_bound s \<le> index \<and> index \<le> upper_bound s \<longrightarrow>
            gen_path s index = (Inr (Format (sequence s) index), s))
       \<and> (0 \<le> index \<and> (index < lower_bound s - 1 \<or> upper_bound s + 1 < index) \<longrightarrow>
            gen_path s index =
              (Inl (DataFileSequenceError (Msg_extend index (lower_bound s) (upper_bound s))), s))
       \<and> ((\<exists>e. fst (gen_path s index) = Inl e)
            \<or> fst (gen_path s index) = Inr (Format (sequence s) index))"
proof (intro conjI impI)
  show "gen_path s index = (Inl (DataFileSequenceError Msg_nonnegative), s)" if "index < 0"
    using assms that by (simp add: gen_path_def)
  show "gen_path s index = (Inr (Format (sequence s) index), s\<lparr>lower_bound := index\<rparr>)"
    if "0 \<le> index \<and> index = lower_bound s - 1"
    using assms that by (simp add: gen_path_def)
  show "gen_path s index = (Inr (Format (sequence s) index), s\<lparr>upper_bound := index\<rparr>)"
    if "0 \<le> index \<and> index = upper_bound s + 1"
    using assms that by (simp add: gen_path_def)
  show "gen_path s index = (Inr (Format (sequence s) index), s)"
    if "0 \<le> index \<and> lower_bound s \<le> index \<and> index \<le> upper_bound s"
    using assms that by (simp add: gen_path_def check_bounds_def)
  show "gen_path s index =
      (Inl (DataFileSequenceError (Msg_extend index (lower_bound s) (upper_bound s))), s)"
    if "0 \<le> index \<and> (index < lower_bound s - 1 \<or> upper_bound s + 1 < index)"
    using assms that by (auto simp: gen_path_def check_bounds_def)
  show "(\<exists>e. fst (gen_path s index) = Inl e)
      \<or> fst (gen_path s index) = Inr (Format (sequence s) index)"
    by (simp add: gen_path_def)
qed

theorem gen_path_mutable_witness:
  "\<not> immutable_bounds (frames False) \<and> lower_bound (frames False) \<le> upper_bound (frames False)
   \<and> gen_path (frames False) (- 1) = (Inl (DataFileSequenceError Msg_nonnegative), frames False)
   \<and> gen_path (frames False) 2 =
       (Inr (Format ''frame-%05d.png'' 2), (frames False)\<lparr>lower_bound := 2\<rparr>)
   \<and> gen_path (frames False) 11 =
       (Inr (Format ''frame-%05d.png'' 11), (frames False)\<lparr>upper_bound := 11\<rparr>)
   \<and> gen_path (frames False) 5 = (Inr (Format ''frame-%05d.png'' 5), frames False)
   \<and> gen_path ((frames False)\<lparr>upper_bound := 11\<rparr>) 13 =
       (Inl (DataFileSequenceError (Msg_extend 13 3 11)), (frames False)\<lparr>upper_bound := 11\<rparr>)"
  using gen_path_mutable [of "frames False" "- 1"] gen_path_mutable [of "frames False" 2]
    gen_path_mutable [of "frames False" 11] gen_path_mutable [of "frames False" 5]
    gen_path_mutable [of "(frames False)\<lparr>upper_bound := 11\<rparr>" 13]
  by (simp add: frames_def)

section \<open>The bounds stay ordered\<close>

lemma init_bounds:
  assumes "DataFileSequence_init disk seq imm = Inr s"
  shows "lower_bound s \<le> upper_bound s"
proof -
  from assms have ne: "disk \<noteq> []"
    by (auto simp: DataFileSequence_init_def parse_bounds_from_pattern_def split: if_splits)
  with assms have "lower_bound s = Min (set disk)" "upper_bound s = Max (set disk)"
    by (auto simp: DataFileSequence_init_def parse_bounds_from_pattern_def)
  moreover from ne have "Min (set disk) \<le> Max (set disk)"
    by (simp add: Min_le_iff) 
  ultimately show ?thesis by simp
qed

lemma gen_path_bounds:
  "lower_bound s \<le> upper_bound s \<Longrightarrow>
     lower_bound (snd (gen_path s i)) \<le> upper_bound (snd (gen_path s i))"
  by (auto simp: gen_path_def check_bounds_def)

lemma dunder_next_bounds:
  "lower_bound s \<le> upper_bound s \<Longrightarrow>
     lower_bound (snd (dunder_next s)) \<le> upper_bound (snd (dunder_next s))"
  by (cases "iter_index s") (simp_all add: dunder_next_def Let_def gen_path_bounds)

lemma drain_bounds:
  "lower_bound s \<le> upper_bound s \<Longrightarrow>
     lower_bound (snd (drain s acc)) \<le> upper_bound (snd (drain s acc))"
proof (induction s acc rule: drain.induct)
  case (1 s acc)
  obtain r s' where nx: "dunder_next s = (r, s')" by (cases "dunder_next s")
  with "1.prems" dunder_next_bounds [of s] have b: "lower_bound s' \<le> upper_bound s'" by simp
  show ?case
  proof (cases r)
    case (Inl e)
    with nx have "snd (drain s acc) = s'"
      by (subst drain.simps) (cases e; simp)
    with b show ?thesis by simp
  next
    case (Inr p)
    with nx have "drain s acc = drain s' (acc @ [p])"
      by (subst drain.simps) simp
    with "1.IH" [OF nx [symmetric] Inr b] show ?thesis by simp
  qed
qed

lemma after_bounds:
  "lower_bound s \<le> upper_bound s \<Longrightarrow> lower_bound (after s op) \<le> upper_bound (after s op)"
  by (cases op)
     (simp_all add: gen_path_bounds dunder_next_bounds drain_bounds iterate_def dunder_iter_def
        set_lower_bound_def set_upper_bound_def)

lemma foldl_after_bounds:
  "lower_bound s \<le> upper_bound s \<Longrightarrow>
     lower_bound (foldl after s ops) \<le> upper_bound (foldl after s ops)"
  by (induction ops arbitrary: s) (simp_all add: after_bounds)

text \<open>
  Claim C6. \<open>lower_bound \<le> upper_bound\<close> holds after construction and after any list of
  operations on the constructed object; \<open>gen_path\<close> keeps the bounds ordered; on a mutable
  sequence the setter of \<open>lower_bound\<close> stores the minimum of the new value and
  \<open>upper_bound\<close>, the setter of \<open>upper_bound\<close> the maximum of the new value and
  \<open>lower_bound\<close>; on an immutable sequence both setters raise and leave the object as it was.
\<close>

theorem bounds_invariant:
  "(DataFileSequence_init disk pattern immutable = Inr s0 \<longrightarrow>
      lower_bound (foldl after s0 ops) \<le> upper_bound (foldl after s0 ops))
   \<and> (lower_bound s1 \<le> upper_bound s1 \<longrightarrow>
      lower_bound (snd (gen_path s1 index)) \<le> upper_bound (snd (gen_path s1 index)))
   \<and> (\<not> immutable_bounds s2 \<longrightarrow>
      set_lower_bound s2 v = (Inr (), s2\<lparr>lower_bound := min v (upper_bound s2)\<rparr>)
      \<and> lower_bound (snd (set_lower_bound s2 v)) \<le> upper_bound (snd (set_lower_bound s2 v))
      \<and> set_upper_bound s2 v = (Inr (), s2\<lparr>upper_bound := max v (lower_bound s2)\<rparr>)
      \<and> lower_bound (snd (set_upper_bound s2 v)) \<le> upper_bound (snd (set_upper_bound s2 v)))
   \<and> (immutable_bounds s3 \<longrightarrow>
      set_lower_bound s3 v = (Inl (DataFileSequenceError Msg_immutable), s3)
      \<and> set_upper_bound s3 v = (Inl (DataFileSequenceError Msg_immutable), s3))"
  using init_bounds [of disk pattern immutable s0] foldl_after_bounds [of s0 ops]
    gen_path_bounds [of s1 index]
  by (simp add: set_lower_bound_def set_upper_bound_def)

theorem bounds_invariant_witness:
  "DataFileSequence_init [3, 4, 5, 6, 7, 8, 9, 10] ''frame-%05d.png'' False = Inr (frames False)
   \<and> lower_bound (foldl after (frames False) [Gen_path 11, Set_lower_bound 20, Iterate, Gen_path 2])
       \<le> upper_bound (foldl after (frames False) [Gen_path 11, Set_lower_bound 20, Iterate, Gen_path 2])
   \<and> lower_bound (frames False) \<le> upper_bound (frames False)
   \<and> lower_bound (snd (gen_path (frames False) 2)) \<le> upper_bound (snd (gen_path (frames False) 2))
   \<and> \<not> immutable_bounds (frames False)
   \<and> set_lower_bound (frames False) 20 = (Inr (), (frames False)\<lparr>lower_bound := 10\<rparr>)
   \<and> set_upper_bound (frames False) 1 = (Inr (), (frames False)\<lparr>upper_bound := 3\<rparr>)
   \<and> immutable_bounds (frames True)
   \<and> set_lower_bound (frames True) 20 = (Inl (DataFileSequenceError Msg_immutable), frames True)
   \<and> set_upper_bound (frames True) 1 = (Inl (DataFileSequenceError Msg_immutable), frames True)"
  using bounds_invariant [of "[3, 4, 5, 6, 7, 8, 9, 10]" "''frame-%05d.png''" False "frames False"
      "[Gen_path 11, Set_lower_bound 20, Iterate, Gen_path 2]" "frames False" 2 "frames False" 20
      "frames True"]
    bounds_invariant [of "[3]" "''x''" False "frames False" "[]" "frames False" 2 "frames False" 1
      "frames True"]
    frames_init [of False]
  by (simp add: frames_def)

section \<open>Iteration\<close>

lemma drain_from:
  assumes "iter_index s = Some i" and "lower_bound s \<le> i + 1"
    and "immutable_bounds s \<or> 0 \<le> lower_bound s"
  shows "drain s acc =
     (Inr (acc @ map (Format (sequence s)) [i + 1..upper_bound s]), s\<lparr>iter_index := None\<rparr>)"
  using assms
proof (induction "nat (upper_bound s - i)" arbitrary: s i acc)
  case 0
  then have "\<not> check_bounds (s\<lparr>iter_index := Some (i + 1)\<rparr>) (i + 1)"
    by (simp add: check_bounds_def)
  with 0 show ?case
    by (subst drain.simps) (simp add: dunder_next_def Let_def)
next
  case (Suc n)
  let ?s1 = "s\<lparr>iter_index := Some (i + 1)\<rparr>"
  from Suc.hyps(2) have le: "i + 1 \<le> upper_bound s" by simp
  with Suc.prems have cb: "check_bounds ?s1 (i + 1)"
    by (simp add: check_bounds_def)
  from Suc.prems le have g: "gen_path ?s1 (i + 1) = (Inr (Format (sequence s) (i + 1)), ?s1)"
    by (auto simp: gen_path_def check_bounds_def)
  from Suc.prems cb g have nx: "dunder_next s = (Inr (Format (sequence s) (i + 1)), ?s1)"
    by (simp add: dunder_next_def Let_def)
  have "drain ?s1 (acc @ [Format (sequence s) (i + 1)]) =
      (Inr ((acc @ [Format (sequence s) (i + 1)]) @ map (Format (sequence ?s1)) [i + 1 + 1..upper_bound ?s1]),
       ?s1\<lparr>iter_index := None\<rparr>)"
    using Suc.hyps(2) Suc.prems le
    by (intro Suc.hyps(1)) auto
  moreover have "[i + 1..upper_bound s] = (i + 1) # [i + 1 + 1..upper_bound s]"
    using le by (simp add: upto_rec1)
  ultimately show ?case
    using nx by (subst drain.simps) simp
qed

lemma iterate_paths:
  assumes "immutable_bounds s \<or> 0 \<le> lower_bound s"
  shows "iterate s =
     (Inr (map (Format (sequence s)) [lower_bound s..upper_bound s]), s\<lparr>iter_index := None\<rparr>)"
  using drain_from [of "dunder_iter s" "lower_bound s - 1" "[]"] assms
  by (simp add: iterate_def dunder_iter_def)

text \<open>
  Claim C7, amended. For a sequence that is immutable or whose lower bound is not
  negative, iterating yields the pattern instantiated with each index from \<open>lower_bound\<close>
  to \<open>upper_bound\<close> in ascending order, \<open>upper_bound - lower_bound + 1\<close> paths when the
  bounds are ordered; the iteration leaves the bounds as they were and the cursor reset, and
  iterating again yields the same paths.
\<close>

theorem iterate_yields_paths:
  assumes "immutable_bounds s \<or> 0 \<le> lower_bound s"
  shows "fst (iterate s) = Inr (map (Format (sequence s)) [lower_bound s..upper_bound s])
       \<and> length (map (Format (sequence s)) [lower_bound s..upper_bound s])
           = nat (upper_bound s - lower_bound s + 1)
       \<and> snd (iterate s) = s\<lparr>iter_index := None\<rparr>
       \<and> iterate (snd (iterate s)) = iterate s"
proof -
  have a: "iterate s =
     (Inr (map (Format (sequence s)) [lower_bound s..upper_bound s]), s\<lparr>iter_index := None\<rparr>)"
    using assms by (rule iterate_paths)
  have b: "iterate (s\<lparr>iter_index := None\<rparr>) =
     (Inr (map (Format (sequence s)) [lower_bound s..upper_bound s]), s\<lparr>iter_index := None\<rparr>)"
    using assms iterate_paths [of "s\<lparr>iter_index := None\<rparr>"] by simp
  from a b show ?thesis by simp
qed

theorem iterate_yields_paths_witness:
  "(immutable_bounds (frames True) \<or> 0 \<le> lower_bound (frames True))
   \<and> fst (iterate (frames True)) =
       Inr (map (Format ''frame-%05d.png'') [3, 4, 5, 6, 7, 8, 9, 10])
   \<and> iterate (snd (iterate (frames True))) = iterate (frames True)"
  using iterate_yields_paths [of "frames True"]
  by (simp add: frames_def)

text \<open>
  Claim C7 as stated, for every sequence, fails on a mutable sequence whose lower bound
  was set below zero: the setter accepts \<open>-1\<close>, and the first \<open>__next__\<close> of an iteration
  then calls \<open>gen_path (-1)\<close>, which raises because indices must be nonnegative.
\<close>

theorem iterate_negative_lower_bound:
  "set_lower_bound (frames False) (- 1) = (Inr (), (frames False)\<lparr>lower_bound := - 1\<rparr>)
   \<and> fst (iterate ((frames False)\<lparr>lower_bound := - 1\<rparr>)) = Inl (DataFileSequenceError Msg_nonnegative)"
  by (simp add: iterate_def dunder_iter_def set_lower_bound_def frames_def drain.simps dunder_next_def
     check_bounds_def gen_path_def)

section \<open>Facts about record construction\<close>

lemma map_of_fold_setattr:
  "map_of (fold (\<lambda>a self. setattr self a (f a)) ks self) k =
     (if k \<in> set ks then Some (f k) else map_of self k)"
  by (induction ks arbitrary: self) (simp_all add: setattr_def update_conv')

lemma map_of_fold_clean:
  "map_of (fold (\<lambda>a self. if hasattr self a \<and> getattr self a = Inr no_default
                           then delattr self a else self) ks self) k =
     (if k \<in> set ks \<and> map_of self k = Some no_default then None else map_of self k)"
proof (induction ks arbitrary: self)
  case Nil
  show ?case by simp
next
  case (Cons x ks)
  let ?step = "\<lambda>a self. if hasattr self a \<and> getattr self a = Inr no_default
                         then delattr self a else self"
  have step: "map_of (?step x self) k =
      (if k = x \<and> map_of self x = Some no_default then None else map_of self k)"
    by (cases "map_of self x") (auto simp: hasattr_def getattr_def delattr_def delete_conv')
  have "map_of (fold ?step (x # ks) self) k = map_of (fold ?step ks (?step x self)) k"
    by simp
  also have "\<dots> = (if k \<in> set ks \<and> map_of (?step x self) k = Some no_default then None
                    else map_of (?step x self) k)"
    by (rule Cons.IH)
  also have "\<dots> = (if k \<in> set (x # ks) \<and> map_of self k = Some no_default then None
                    else map_of self k)"
    unfolding step by auto
  finally show ?case .
qed

lemma map_of_clean_optional:
  "map_of (clean_optional cls self) k =
     (if k \<in> set (optional cls) \<and> map_of self k = Some no_default then None else map_of self k)"
  unfolding clean_optional_def by (rule map_of_fold_clean)

lemma required_kwargs_missing:
  "find (\<lambda>k. map_of d k = None) ks = Some k \<Longrightarrow>
     required_kwargs d ks kwargs = Inl (KeyError (Json (JStr k)))"
  by (induction ks arbitrary: kwargs) (auto split: option.splits)

lemma required_kwargs_present:
  "\<forall>k \<in> set ks. map_of d k \<noteq> None \<Longrightarrow>
     \<exists>kw. required_kwargs d ks kwargs = Inr kw
        \<and> fst ` set kw = fst ` set kwargs \<union> set ks
        \<and> (\<forall>k. map_of kw k = (if k \<in> set ks then map_option Json (map_of d k) else map_of kwargs k))"
proof (induction ks arbitrary: kwargs)
  case Nil
  show ?case by simp
next
  case (Cons x ks)
  from Cons.prems obtain v where v: "map_of d x = Some v" by auto
  from Cons.prems have "\<forall>k \<in> set ks. map_of d k \<noteq> None" by simp
  from Cons.IH [OF this, of "AList.update x (Json v) kwargs"]
  obtain kw where kw: "required_kwargs d ks (AList.update x (Json v) kwargs) = Inr kw"
    "fst ` set kw = fst ` set (AList.update x (Json v) kwargs) \<union> set ks"
    "\<forall>k. map_of kw k = (if k \<in> set ks then map_option Json (map_of d k)
                           else map_of (AList.update x (Json v) kwargs) k)"
    by blast
  show ?case
  proof (intro exI conjI allI)
    show "required_kwargs d (x # ks) kwargs = Inr kw" using v kw(1) by simp
    show "fst ` set kw = fst ` set kwargs \<union> set (x # ks)"
      using kw(2) by (auto simp: dom_update)
    show "map_of kw k = (if k \<in> set (x # ks) then map_option Json (map_of d k) else map_of kwargs k)"
      for k using kw(3) v by (simp add: update_conv')
  qed
qed

lemma optional_kwargs_keys:
  "fst ` set (optional_kwargs d ks kwargs) = fst ` set kwargs \<union> {k \<in> set ks. map_of d k \<noteq> None}"
  unfolding optional_kwargs_def
  by (induction ks arbitrary: kwargs) (auto simp: dom_update split: option.splits)

lemma map_of_optional_kwargs:
  "map_of (optional_kwargs d ks kwargs) k =
     (if k \<in> set ks \<and> map_of d k \<noteq> None then map_option Json (map_of d k) else map_of kwargs k)"
  unfolding optional_kwargs_def
  by (induction ks arbitrary: kwargs) (auto simp: update_conv' split: option.splits)

lemma map_of_record_init:
  assumes "record_init cls kwargs = Inr self"
  shows "map_of self a =
     (if a \<in> set (optional cls)
      then (case map_of kwargs a of None \<Rightarrow> None | Some no_default \<Rightarrow> None | Some v \<Rightarrow> Some v)
      else if a \<in> set (required cls) then map_of kwargs a
      else None)"
proof -
  from assms have req: "\<forall>r \<in> set (required cls). map_of kwargs r \<noteq> None"
    by (auto simp: record_init_def list_ex_iff split: if_splits)
  from assms have self: "self = clean_optional cls
      (fold (\<lambda>a self. setattr self a (case map_of kwargs a of None \<Rightarrow> no_default | Some v \<Rightarrow> v))
         (optional cls)
         (fold (\<lambda>r self. setattr self r (case map_of kwargs r of None \<Rightarrow> no_default | Some v \<Rightarrow> v))
            (required cls) []))"
    by (auto simp: record_init_def BaseDataRecord_init_def Let_def split: if_splits)
  show ?thesis
    using req unfolding self
    by (auto simp: map_of_clean_optional map_of_fold_setattr split: option.splits pyval.splits)
qed

lemma record_init_succeeds:
  assumes "fst ` set kwargs \<subseteq> set (required cls) \<union> set (optional cls)"
    and "\<forall>r \<in> set (required cls). map_of kwargs r \<noteq> None"
  shows "\<exists>self. record_init cls kwargs = Inr self"
  using assms by (auto simp: record_init_def list_ex_iff Let_def)

lemma from_dict_present:
  assumes "\<forall>k \<in> set (required cls). map_of d k \<noteq> None"
  shows "\<exists>self. BaseDataRecord_from_dict cls d = Inr self
     \<and> (\<forall>a. map_of self a =
          (if a \<in> set (required cls) \<or> a \<in> set (optional cls)
           then map_option Json (map_of d a) else None))"
proof -
  from required_kwargs_present [OF assms, of "[]"]
  obtain kw where kw: "required_kwargs d (required cls) [] = Inr kw"
    "fst ` set kw = set (required cls)"
    "\<forall>k. map_of kw k = (if k \<in> set (required cls) then map_option Json (map_of d k) else None)"
    by auto
  let ?kwargs = "optional_kwargs d (optional cls) kw"
  have keys: "fst ` set ?kwargs \<subseteq> set (required cls) \<union> set (optional cls)"
    using kw(2) by (auto simp: optional_kwargs_keys)
  have vals: "map_of ?kwargs k =
      (if k \<in> set (required cls) \<or> k \<in> set (optional cls)
       then map_option Json (map_of d k) else None)" for k
    using kw(3) by (auto simp: map_of_optional_kwargs)
  have "\<forall>r \<in> set (required cls). map_of ?kwargs r \<noteq> None"
    using assms by (simp add: vals)
  with keys obtain self where self: "record_init cls ?kwargs = Inr self"
    using record_init_succeeds by blast
  have "map_of self a =
      (if a \<in> set (required cls) \<or> a \<in> set (optional cls)
       then map_option Json (map_of d a) else None)" for a
    unfolding map_of_record_init [OF self] vals
    by (auto split: option.splits pyval.splits)
  with kw(1) self show ?thesis
    by (simp add: BaseDataRecord_from_dict_def)
qed

lemma record_init_LabeledVideoRecord:
  "record_init LabeledVideoRecord [(''video_path'', v), (''label'', l)]
     = Inr (LabeledVideoRecord_init v l no_default)"
  "record_init LabeledVideoRecord [(''video_path'', v), (''label'', l), (''group'', g)]
     = Inr (LabeledVideoRecord_init v l g)"
  by (simp_all add: record_init_def LabeledVideoRecord_init_def LabeledVideoRecord_def)

section \<open>Loading a record from a dictionary\<close>

text \<open>
  Claim C8. For every record class and every input dictionary: when a required name is
  not a key of the dictionary, \<open>BaseDataRecord.from_dict\<close> raises a \<open>KeyError\<close> naming a
  required name that is missing (the first one in the order of \<open>required()\<close>) and returns
  no record. When every required name is a key, it returns a record on which each
  required name and each optional name that is a key holds the dictionary's value, an
  optional name that is no key is no attribute, and no other key of the dictionary is an
  attribute.
\<close>

theorem from_dict_required_optional:
  "(find (\<lambda>k. map_of d k = None) (required cls) = Some k \<longrightarrow>
      BaseDataRecord_from_dict cls d = Inl (KeyError (Json (JStr k)))
      \<and> k \<in> set (required cls) \<and> map_of d k = None)
   \<and> ((\<exists>r \<in> set (required cls). map_of d r = None) \<longrightarrow>
      (\<exists>m \<in> set (required cls). map_of d m = None
         \<and> BaseDataRecord_from_dict cls d = Inl (KeyError (Json (JStr m)))))
   \<and> ((\<forall>r \<in> set (required cls). map_of d r \<noteq> None) \<longrightarrow>
      (\<exists>self. BaseDataRecord_from_dict cls d = Inr self
         \<and> (\<forall>a \<in> set (required cls). map_of self a = map_option Json (map_of d a))
         \<and> (\<forall>a \<in> set (optional cls). \<forall>v. map_of d a = Some v \<longrightarrow> getattr self a = Inr (Json v))
         \<and> (\<forall>a \<in> set (optional cls). map_of d a = None \<longrightarrow> \<not> hasattr self a)
         \<and> (\<forall>a. a \<notin> set (required cls) \<and> a \<notin> set (optional cls) \<longrightarrow> \<not> hasattr self a)))"
proof (intro conjI impI)
  assume f: "find (\<lambda>k. map_of d k = None) (required cls) = Some k"
  then show "BaseDataRecord_from_dict cls d = Inl (KeyError (Json (JStr k)))"
    by (simp add: BaseDataRecord_from_dict_def required_kwargs_missing)
  from f show "k \<in> set (required cls)" by (auto simp: find_Some_iff)
  from f show "map_of d k = None" by (auto simp: find_Some_iff)
next
  assume "\<exists>r \<in> set (required cls). map_of d r = None"
  then obtain m where m: "find (\<lambda>k. map_of d k = None) (required cls) = Some m"
    by (cases "find (\<lambda>k. map_of d k = None) (required cls)") (auto simp: find_None_iff)
  then have "m \<in> set (required cls)" "map_of d m = None"
    by (auto simp: find_Some_iff)
  moreover from m have "BaseDataRecord_from_dict cls d = Inl (KeyError (Json (JStr m)))"
    by (simp add: BaseDataRecord_from_dict_def required_kwargs_missing)
  ultimately show "\<exists>m \<in> set (required cls). map_of d m = None
         \<and> BaseDataRecord_from_dict cls d = Inl (KeyError (Json (JStr m)))"
    by blast
next
  assume "\<forall>r \<in> set (required cls). map_of d r \<noteq> None"
  from from_dict_present [OF this]
  obtain self where self: "BaseDataRecord_from_dict cls d = Inr self"
    and attrs: "\<And>a. map_of self a =
          (if a \<in> set (required cls) \<or> a \<in> set (optional cls)
           then map_option Json (map_of d a) else None)"
    by blast
  show "\<exists>self. BaseDataRecord_from_dict cls d = Inr self
         \<and> (\<forall>a \<in> set (required cls). map_of self a = map_option Json (map_of d a))
         \<and> (\<forall>a \<in> set (optional cls). \<forall>v. map_of d a = Some v \<longrightarrow> getattr self a = Inr (Json v))
         \<and> (\<forall>a \<in> set (optional cls). map_of d a = None \<longrightarrow> \<not> hasattr self a)
         \<and> (\<forall>a. a \<notin> set (required cls) \<and> a \<notin> set (optional cls) \<longrightarrow> \<not> hasattr self a)"
    using self by (simp add: attrs getattr_def hasattr_def)
qed

theorem from_dict_required_optional_witness:
  "find (\<lambda>k. map_of [(''label'', JStr ''cat'')] k = None) (required LabeledVideoRecord)
     = Some ''video_path''
   \<and> BaseDataRecord_from_dict LabeledVideoRecord [(''label'', JStr ''cat'')]
     = Inl (KeyError (Json (JStr ''video_path'')))
   \<and> find (\<lambda>k. map_of cat_dict k = None) (required LabeledVideoRecord) = None
   \<and> (\<exists>self. BaseDataRecord_from_dict LabeledVideoRecord cat_dict = Inr self
        \<and> getattr self ''video_path'' = Inr (Json (JStr ''a.mp4''))
        \<and> getattr self ''label'' = Inr (Json (JStr ''cat''))
        \<and> getattr self ''group'' = Inr (Json JNull)
        \<and> \<not> hasattr self ''frames'')"
proof -
  have bad: "find (\<lambda>k. map_of [(''label'', JStr ''cat'')] k = None) (required LabeledVideoRecord)
     = Some ''video_path''"
    by (simp add: LabeledVideoRecord_def)
  have ok: "\<forall>r \<in> set (required LabeledVideoRecord). map_of cat_dict r \<noteq> None"
    by (simp add: LabeledVideoRecord_def cat_dict_def)
  from from_dict_required_optional
    [of cat_dict LabeledVideoRecord "''x''", THEN conjunct2, THEN conjunct2, THEN mp, OF ok]
  obtain self where self: "BaseDataRecord_from_dict LabeledVideoRecord cat_dict = Inr self"
    and req: "\<forall>a \<in> set (required LabeledVideoRecord). map_of self a = map_option Json (map_of cat_dict a)"
    and opt: "\<forall>a \<in> set (optional LabeledVideoRecord). \<forall>v.
        map_of cat_dict a = Some v \<longrightarrow> getattr self a = Inr (Json v)"
    and other: "\<forall>a. a \<notin> set (required LabeledVideoRecord) \<and> a \<notin> set (optional LabeledVideoRecord)
        \<longrightarrow> \<not> hasattr self a"
    by blast
  from req have "getattr self ''video_path'' = Inr (Json (JStr ''a.mp4''))"
    "getattr self ''label'' = Inr (Json (JStr ''cat''))"
    by (simp_all add: LabeledVideoRecord_def cat_dict_def getattr_def)
  moreover from opt have "getattr self ''group'' = Inr (Json JNull)"
    by (simp add: LabeledVideoRecord_def cat_dict_def)
  moreover from other have "\<not> hasattr self ''frames''"
    by (simp add: LabeledVideoRecord_def)
  moreover have "find (\<lambda>k. map_of cat_dict k = None) (required LabeledVideoRecord) = None"
    by (simp add: LabeledVideoRecord_def cat_dict_def)
  moreover note self bad
    from_dict_required_optional
      [of "[(''label'', JStr ''cat'')]" LabeledVideoRecord "''video_path''", THEN conjunct1,
       THEN mp, OF bad, THEN conjunct1]
  ultimately show ?thesis by blast
qed

section \<open>Unset optional fields\<close>

text \<open>
  Claim C9. An optional field that still holds the sentinel \<open>no_default\<close> when the base
  constructor runs is deleted: it is no attribute of the record afterwards (reading it
  raises \<open>AttributeError\<close>) and it is not in \<open>attributes()\<close>. So a record constructed with
  only its required fields supplied has none of its other optional fields. An optional
  field set to \<open>None\<close> is kept with the value \<open>None\<close>, and is in \<open>attributes()\<close> unless its
  name is private or excluded. For \<open>LabeledVideoRecord\<close>: without \<open>group\<close> the attributes
  are \<open>video_path\<close> and \<open>label\<close>, with \<open>group=None\<close> they are all three.
\<close>

theorem unset_optional_is_pruned:
  assumes "a \<in> set (optional cls)"
  shows "(map_of self a = Some no_default \<longrightarrow>
            \<not> hasattr (BaseDataRecord_init cls self) a
          \<and> getattr (BaseDataRecord_init cls self) a = Inl (AttributeError a)
          \<and> a \<notin> set (attributes cls (BaseDataRecord_init cls self)))
       \<and> (map_of self a = Some (Json JNull) \<longrightarrow>
            getattr (BaseDataRecord_init cls self) a = Inr (Json JNull)
          \<and> (a \<in> set (attributes cls (BaseDataRecord_init cls self))
               \<longleftrightarrow> \<not> is_private a \<and> a \<notin> set (excluded cls)))
       \<and> (record_init cls kwargs = Inr r \<and> map_of kwargs a = None \<longrightarrow>
            \<not> hasattr r a \<and> a \<notin> set (attributes cls r))
       \<and> (record_init cls kwargs = Inr r \<and> map_of kwargs a = Some (Json JNull) \<longrightarrow>
            getattr r a = Inr (Json JNull)
          \<and> (a \<in> set (attributes cls r) \<longleftrightarrow> \<not> is_private a \<and> a \<notin> set (excluded cls)))
       \<and> \<not> hasattr (LabeledVideoRecord_init video_path label no_default) ''group''
       \<and> getattr (LabeledVideoRecord_init video_path label (Json JNull)) ''group'' = Inr (Json JNull)
       \<and> attributes LabeledVideoRecord (LabeledVideoRecord_init video_path label no_default)
           = [''video_path'', ''label'']
       \<and> attributes LabeledVideoRecord (LabeledVideoRecord_init video_path label (Json JNull))
           = [''video_path'', ''label'', ''group'']"
proof -
  have keys: "b \<in> fst ` set s \<longleftrightarrow> map_of s b \<noteq> None" for b and s :: data_record
    by (simp add: map_of_eq_None_iff)
  have attr: "b \<in> set (attributes c s) \<longleftrightarrow> map_of s b \<noteq> None \<and> \<not> is_private b \<and> b \<notin> set (excluded c)"
    for b c s
    using keys [of b s] by (auto simp: attributes_def Serializable_attributes_def)
  have 1: "map_of self a = Some no_default \<longrightarrow>
            \<not> hasattr (BaseDataRecord_init cls self) a
          \<and> getattr (BaseDataRecord_init cls self) a = Inl (AttributeError a)
          \<and> a \<notin> set (attributes cls (BaseDataRecord_init cls self))"
    using assms
    by (simp add: attr hasattr_def getattr_def BaseDataRecord_init_def map_of_clean_optional)
  have 2: "map_of self a = Some (Json JNull) \<longrightarrow>
            getattr (BaseDataRecord_init cls self) a = Inr (Json JNull)
          \<and> (a \<in> set (attributes cls (BaseDataRecord_init cls self))
               \<longleftrightarrow> \<not> is_private a \<and> a \<notin> set (excluded cls))"
    using assms
    by (simp add: attr hasattr_def getattr_def BaseDataRecord_init_def map_of_clean_optional)
  have 3: "record_init cls kwargs = Inr r \<and> map_of kwargs a = None \<longrightarrow>
            \<not> hasattr r a \<and> a \<notin> set (attributes cls r)"
    using assms map_of_record_init [of cls kwargs r a]
    by (auto simp: attr hasattr_def)
  have 4: "record_init cls kwargs = Inr r \<and> map_of kwargs a = Some (Json JNull) \<longrightarrow>
            getattr r a = Inr (Json JNull)
          \<and> (a \<in> set (attributes cls r) \<longleftrightarrow> \<not> is_private a \<and> a \<notin> set (excluded cls))"
    using assms map_of_record_init [of cls kwargs r a]
    by (auto simp: attr getattr_def)
  have 5: "\<not> hasattr (LabeledVideoRecord_init video_path label no_default) ''group''"
    "getattr (LabeledVideoRecord_init video_path label (Json JNull)) ''group'' = Inr (Json JNull)"
    "attributes LabeledVideoRecord (LabeledVideoRecord_init video_path label no_default)
           = [''video_path'', ''label'']"
    "attributes LabeledVideoRecord (LabeledVideoRecord_init video_path label (Json JNull))
           = [''video_path'', ''label'', ''group'']"
    by (simp_all add: LabeledVideoRecord_init_def LabeledVideoRecord_def BaseDataRecord_init_def
        clean_optional_def hasattr_def getattr_def setattr_def delattr_def attributes_def
        Serializable_attributes_def is_private_def)
  from 1 2 3 4 5 show ?thesis by blast
qed

theorem unset_optional_is_pruned_witness:
  "''group'' \<in> set (optional LabeledVideoRecord)
   \<and> \<not> hasattr (BaseDataRecord_init LabeledVideoRecord
         [(''video_path'', Json (JStr ''a.mp4'')), (''label'', Json (JStr ''cat'')),
          (''group'', no_default)]) ''group''
   \<and> ''group'' \<notin> set (attributes LabeledVideoRecord (BaseDataRecord_init LabeledVideoRecord
         [(''video_path'', Json (JStr ''a.mp4'')), (''label'', Json (JStr ''cat'')),
          (''group'', no_default)]))
   \<and> getattr (BaseDataRecord_init LabeledVideoRecord
         [(''video_path'', Json (JStr ''a.mp4'')), (''label'', Json (JStr ''cat'')),
          (''group'', Json JNull)]) ''group'' = Inr (Json JNull)
   \<and> ''group'' \<in> set (attributes LabeledVideoRecord (BaseDataRecord_init LabeledVideoRecord
         [(''video_path'', Json (JStr ''a.mp4'')), (''label'', Json (JStr ''cat'')),
          (''group'', Json JNull)]))"
proof -
  have opt: "''group'' \<in> set (optional LabeledVideoRecord)"
    by (simp add: LabeledVideoRecord_def)
  have pub: "\<not> is_private ''group'' \<and> ''group'' \<notin> set (excluded LabeledVideoRecord)"
    by (simp add: is_private_def LabeledVideoRecord_def)
  note unset = unset_optional_is_pruned [OF opt,
      of "[(''video_path'', Json (JStr ''a.mp4'')), (''label'', Json (JStr ''cat'')),
           (''group'', no_default)]" "[]" "[]" no_default no_default, THEN conjunct1, THEN mp]
  note null = unset_optional_is_pruned [OF opt,
      of "[(''video_path'', Json (JStr ''a.mp4'')), (''label'', Json (JStr ''cat'')),
           (''group'', Json JNull)]" "[]" "[]" no_default no_default,
      THEN conjunct2, THEN conjunct1, THEN mp]
  from opt pub unset null show ?thesis by simp
qed

section \<open>Facts about the lookup dictionary and the culling loop\<close>

lemma build_lookup_loop_entries:
  "build_lookup_loop ps field lud = Inr lud' \<Longrightarrow>
     map_of lud' v =
       (if \<exists>(i, r) \<in> set ps. getattr r field = Inr v
        then Some (defaultdict_get lud v
               @ map fst (filter (\<lambda>(i, r). getattr r field = Inr v) ps))
        else map_of lud v)"
proof (induction ps arbitrary: lud)
  case Nil
  then show ?case by simp
next
  case (Cons p ps)
  obtain i r where p: "p = (i, r)" by (cases p)
  from Cons.prems p obtain w where w: "getattr r field = Inr w"
    by (cases "getattr r field") auto
  let ?lud1 = "AList.update w (defaultdict_get lud w @ [i]) lud"
  from Cons.prems p w have "build_lookup_loop ps field ?lud1 = Inr lud'" by simp
  from Cons.IH [OF this]
  have ih: "map_of lud' v =
       (if \<exists>(i, r) \<in> set ps. getattr r field = Inr v
        then Some (defaultdict_get ?lud1 v
               @ map fst (filter (\<lambda>(i, r). getattr r field = Inr v) ps))
        else map_of ?lud1 v)" .
  show ?case
  proof (cases "v = w")
    case True
    have "filter (\<lambda>(i, r). getattr r field = Inr w) ps = []"
      if "\<not> (\<exists>(i, r) \<in> set ps. getattr r field = Inr w)"
      using that by (auto simp: filter_empty_conv)
    with True ih p w show ?thesis
      by (auto simp: defaultdict_get_def update_conv')
  next
    case False
    with ih p w show ?thesis
      by (auto simp: defaultdict_get_def update_conv')
  qed
qed

lemma build_lookup_loop_hasattr:
  "build_lookup_loop ps field lud = Inr lud' \<Longrightarrow> (i, r) \<in> set ps \<Longrightarrow> hasattr r field"
proof (induction ps arbitrary: lud)
  case Nil
  then show ?case by simp
next
  case (Cons p ps)
  obtain j x where p: "p = (j, x)" by (cases p)
  from Cons.prems(1) p obtain w where w: "getattr x field = Inr w"
    by (cases "getattr x field") auto
  then have hx: "hasattr x field"
    by (auto simp: getattr_def hasattr_def split: option.splits)
  from Cons.prems(1) p w
  have "build_lookup_loop ps field (AList.update w (defaultdict_get lud w @ [j]) lud) = Inr lud'"
    by simp
  with Cons.IH Cons.prems(2) p hx show ?case by auto
qed

lemma build_lookup_loop_succeeds:
  "\<forall>(i, r) \<in> set ps. hasattr r field \<Longrightarrow> \<exists>lud'. build_lookup_loop ps field lud = Inr lud'"
proof (induction ps arbitrary: lud)
  case Nil
  show ?case by simp
next
  case (Cons p ps)
  obtain j x where p: "p = (j, x)" by (cases p)
  with Cons.prems obtain w where "getattr x field = Inr w"
    by (auto simp: getattr_def hasattr_def)
  with Cons.IH [of "AList.update w (defaultdict_get lud w @ [j]) lud"] Cons.prems p
  show ?case by auto
qed

lemma build_lookup_loop_fails:
  "build_lookup_loop ps field lud = Inl e \<Longrightarrow> e = AttributeError field"
proof (induction ps arbitrary: lud)
  case Nil
  then show ?case by simp
next
  case (Cons p ps)
  obtain j x where p: "p = (j, x)" by (cases p)
  show ?case
  proof (cases "getattr x field")
    case (Inl e')
    with Cons.prems p show ?thesis
      by (auto simp: getattr_def split: option.splits)
  next
    case (Inr w)
    with Cons.prems p Cons.IH show ?thesis by auto
  qed
qed

lemma in_enumerate_records:
  "(\<exists>(i, r) \<in> set (enumerate n xs). P r) \<longleftrightarrow> (\<exists>r \<in> set xs. P r)"
proof -
  have "snd ` set (enumerate n xs) = set xs"
    by (metis map_snd_enumerate set_map)
  then show ?thesis by force
qed

lemma build_lookup_entries:
  assumes "build_lookup self field = Inr lud"
  shows "defaultdict_get lud v =
           map fst (filter (\<lambda>(i, r). getattr r field = Inr v) (enumerate 0 (records self)))"
    and "map_of lud v \<noteq> None \<longleftrightarrow> (\<exists>r \<in> set (records self). getattr r field = Inr v)"
    and "v \<in> fst ` set lud \<longleftrightarrow> (\<exists>r \<in> set (records self). getattr r field = Inr v)"
proof -
  let ?ps = "enumerate 0 (records self)"
  from assms have m: "map_of lud v =
       (if \<exists>(i, r) \<in> set ?ps. getattr r field = Inr v
        then Some (map fst (filter (\<lambda>(i, r). getattr r field = Inr v) ?ps))
        else None)"
    using build_lookup_loop_entries [of ?ps field "[]" lud v]
    by (simp add: build_lookup_def defaultdict_get_def)
  have e: "filter (\<lambda>(i, r). getattr r field = Inr v) ?ps = []"
    if "\<not> (\<exists>(i, r) \<in> set ?ps. getattr r field = Inr v)"
    using that by (auto simp: filter_empty_conv)
  show "defaultdict_get lud v = map fst (filter (\<lambda>(i, r). getattr r field = Inr v) ?ps)"
    using m e by (auto simp: defaultdict_get_def)
  show n: "map_of lud v \<noteq> None \<longleftrightarrow> (\<exists>r \<in> set (records self). getattr r field = Inr v)"
    using m in_enumerate_records [of 0 "records self" "\<lambda>r. getattr r field = Inr v"]
    by (auto split: if_splits)
  show "v \<in> fst ` set lud \<longleftrightarrow> (\<exists>r \<in> set (records self). getattr r field = Inr v)"
    unfolding n [symmetric] by (simp add: map_of_eq_None_iff)
qed

lemma build_lookup_hasattr:
  "build_lookup self field = Inr lud \<Longrightarrow> r \<in> set (records self) \<Longrightarrow> hasattr r field"
proof -
  assume a: "build_lookup self field = Inr lud" and r: "r \<in> set (records self)"
  from r have "r \<in> snd ` set (enumerate 0 (records self))"
    by (metis map_snd_enumerate set_map)
  then obtain i where "(i, r) \<in> set (enumerate 0 (records self))" by force
  with a show ?thesis
    unfolding build_lookup_def by (rule build_lookup_loop_hasattr)
qed

lemma build_lookup_succeeds:
  assumes "\<forall>r \<in> set (records self). hasattr r field"
  shows "\<exists>lud. build_lookup self field = Inr lud"
proof -
  have "\<forall>(i, r) \<in> set (enumerate 0 (records self)). hasattr r field"
    using assms by (auto simp: in_set_enumerate_eq)
  then show ?thesis
    unfolding build_lookup_def by (rule build_lookup_loop_succeeds)
qed

lemma cull_inds_present:
  "\<forall>v \<in> set vs. map_of lud v \<noteq> None \<Longrightarrow>
     cull_inds lud vs inds = Inr (inds @ concat (map (defaultdict_get lud) vs))"
  by (induction vs arbitrary: inds) (auto simp: defaultdict_get_def)

lemma cull_inds_missing:
  "find (\<lambda>v. map_of lud v = None) vs = Some v \<Longrightarrow> cull_inds lud vs inds = Inl (KeyError v)"
  by (induction vs arbitrary: inds) (auto split: option.splits)

lemma keep_inds_lookup:
  assumes lud: "build_lookup self field = Inr lud"
  shows "keep_inds self (concat (map (defaultdict_get lud) vs)) =
     self\<lparr>records := filter (\<lambda>r. \<exists>v \<in> set vs. getattr r field = Inr v) (records self)\<rparr>"
proof -
  let ?ps = "enumerate 0 (records self)"
  let ?Q = "\<lambda>r. \<exists>v \<in> set vs. getattr r field = Inr v"
  define inds where "inds = concat (map (defaultdict_get lud) vs)"
  have d: "distinct (map fst ?ps)" by simp
  have mem: "i \<in> set inds \<longleftrightarrow> ?Q r" if ir: "(i, r) \<in> set ?ps" for i r
  proof
    assume "i \<in> set inds"
    then obtain v where v: "v \<in> set vs" "i \<in> set (defaultdict_get lud v)"
      by (auto simp: inds_def)
    from v(2) obtain r' where r': "(i, r') \<in> set ?ps" "getattr r' field = Inr v"
      unfolding build_lookup_entries(1) [OF lud] by auto
    from eq_key_imp_eq_value [OF d r'(1) ir] r'(2) v(1) show "?Q r" by auto
  next
    assume "?Q r"
    then obtain v where v: "v \<in> set vs" "getattr r field = Inr v" by auto
    with ir have "i \<in> set (defaultdict_get lud v)"
      unfolding build_lookup_entries(1) [OF lud] by force
    with v(1) show "i \<in> set inds" by (auto simp: inds_def)
  qed
  have "filter (\<lambda>(i, r). i \<in> set inds) ?ps = filter (?Q \<circ> snd) ?ps"
  proof (rule filter_cong [OF refl])
    fix p assume p: "p \<in> set ?ps"
    obtain i r where ir: "p = (i, r)" by (cases p)
    with p mem [of i r] show "(case p of (i, r) \<Rightarrow> i \<in> set inds) = (?Q \<circ> snd) p"
      by simp
  qed
  then have "map snd (filter (\<lambda>(i, r). i \<in> set inds) ?ps) = filter ?Q (map snd ?ps)"
    by (simp only: filter_map)
  then show ?thesis
    unfolding inds_def [symmetric] by (simp add: keep_inds_def)
qed

lemma cull_keep:
  assumes lud: "build_lookup self field = Inr lud"
    and ne: "vs \<noteq> []" and sub: "\<forall>v \<in> set vs. map_of lud v \<noteq> None"
  shows "cull self field (Some vs) None =
     (Inr (length (filter (\<lambda>r. \<exists>v \<in> set vs. getattr r field = Inr v) (records self))),
      self\<lparr>records := filter (\<lambda>r. \<exists>v \<in> set vs. getattr r field = Inr v) (records self)\<rparr>)"
  using lud ne cull_inds_present [OF sub, of "[]"] keep_inds_lookup [OF lud, of vs]
  by (simp add: cull_def Let_def)

lemma cull_remove:
  assumes lud: "build_lookup self field = Inr lud" and ne: "ds \<noteq> []"
  shows "cull self field keep (Some ds) =
     (if \<forall>r \<in> set (records self). \<forall>v. getattr r field = Inr v \<longrightarrow> v \<in> set ds
      then (Inl (DataRecordsError Msg_keep_or_remove), self)
      else (Inr (length (filter (\<lambda>r. \<exists>v. getattr r field = Inr v \<and> v \<notin> set ds) (records self))),
            self\<lparr>records := filter (\<lambda>r. \<exists>v. getattr r field = Inr v \<and> v \<notin> set ds)
                                (records self)\<rparr>))"
proof -
  define ks where "ks = filter (\<lambda>k. k \<notin> set ds) (map fst lud)"
  have ks: "v \<in> set ks \<longleftrightarrow> (\<exists>r \<in> set (records self). getattr r field = Inr v) \<and> v \<notin> set ds" for v
    using build_lookup_entries(3) [OF lud, of v] by (auto simp: ks_def)
  have empty: "ks = [] \<longleftrightarrow>
      (\<forall>r \<in> set (records self). \<forall>v. getattr r field = Inr v \<longrightarrow> v \<in> set ds)"
  proof -
    have "ks = [] \<longleftrightarrow> (\<forall>v. v \<notin> set ks)" by (metis all_not_in_conv set_empty)
    also have "\<dots> \<longleftrightarrow> (\<forall>r \<in> set (records self). \<forall>v. getattr r field = Inr v \<longrightarrow> v \<in> set ds)"
      using ks by blast
    finally show ?thesis .
  qed
  have f: "filter (\<lambda>r. \<exists>v \<in> set ks. getattr r field = Inr v) (records self) =
      filter (\<lambda>r. \<exists>v. getattr r field = Inr v \<and> v \<notin> set ds) (records self)"
  proof (rule filter_cong [OF refl])
    fix r assume "r \<in> set (records self)"
    with ks show "(\<exists>v \<in> set ks. getattr r field = Inr v)
        \<longleftrightarrow> (\<exists>v. getattr r field = Inr v \<and> v \<notin> set ds)"
      by blast
  qed
  have sub: "\<forall>v \<in> set ks. map_of lud v \<noteq> None"
    by (auto simp: ks_def map_of_eq_None_iff)
  have c: "cull self field keep (Some ds) =
      (if ks = [] then (Inl (DataRecordsError Msg_keep_or_remove), self)
       else cull self field (Some ks) None)"
    using lud ne by (simp add: cull_def Let_def ks_def)
  show ?thesis
  proof (cases "ks = []")
    case True
    with c empty show ?thesis by simp
  next
    case False
    from cull_keep [OF lud False sub] c False empty f show ?thesis by simp
  qed
qed

lemma build_keyset_loop_set:
  "build_keyset_loop rs field keys = Inr ks \<Longrightarrow>
     set ks = set keys \<union> {v. \<exists>r \<in> set rs. getattr r field = Inr v}"
proof (induction rs arbitrary: keys)
  case Nil
  then show ?case by simp
next
  case (Cons r rs)
  from Cons.prems obtain w where w: "getattr r field = Inr w"
    by (cases "getattr r field") auto
  with Cons.prems have "build_keyset_loop rs field (List.insert w keys) = Inr ks" by simp
  from Cons.IH [OF this] w show ?case by auto
qed

lemma build_keyset_loop_hasattr:
  "build_keyset_loop rs field keys = Inr ks \<Longrightarrow> r \<in> set rs \<Longrightarrow> hasattr r field"
proof (induction rs arbitrary: keys)
  case Nil
  then show ?case by simp
next
  case (Cons x rs)
  from Cons.prems(1) obtain w where w: "getattr x field = Inr w"
    by (cases "getattr x field") auto
  then have hx: "hasattr x field"
    by (auto simp: getattr_def hasattr_def split: option.splits)
  from Cons.prems(1) w have "build_keyset_loop rs field (List.insert w keys) = Inr ks" by simp
  with Cons.IH Cons.prems(2) hx show ?case by auto
qed

lemma build_keyset_loop_succeeds:
  "\<forall>r \<in> set rs. hasattr r field \<Longrightarrow> \<exists>ks. build_keyset_loop rs field keys = Inr ks"
proof (induction rs arbitrary: keys)
  case Nil
  show ?case by simp
next
  case (Cons x rs)
  then obtain w where "getattr x field = Inr w"
    by (auto simp: getattr_def hasattr_def)
  with Cons.IH [of "List.insert w keys"] Cons.prems show ?case by auto
qed

lemma build_keyset_set:
  "build_keyset self field = Inr ks \<Longrightarrow>
     set ks = {v. \<exists>r \<in> set (records self). getattr r field = Inr v}"
  using build_keyset_loop_set [of "records self" field "[]" ks] by (simp add: build_keyset_def)

lemma videos_records:
  "videos = \<lparr>ELE_CLS = ClassObj LabeledVideoRecord, records =
     [[(''video_path'', Json (JStr ''a.mp4'')), (''label'', Json (JStr ''cat''))],
      [(''video_path'', Json (JStr ''b.mp4'')), (''label'', Json (JStr ''dog'')),
       (''group'', Json (JStr ''g1''))],
      [(''video_path'', Json (JStr ''c.mp4'')), (''label'', Json (JStr ''cat'')),
       (''group'', Json (JStr ''g1''))]]\<rparr>"
  by (simp add: videos_def DataRecords_init_def LabeledVideoRecord_init_def BaseDataRecord_init_def
      LabeledVideoRecord_def clean_optional_def hasattr_def getattr_def setattr_def delattr_def)

lemma from_dict_without_override:
  assumes "DataRecords_from_dict d None = Inr c"
  shows "records c = [] \<and> (\<exists>name. ELE_CLS c = StrObj name)"
proof -
  from assms obtain name rs xs where n: "RECORD_CLS_entry d = Some name"
    and rs: "records_entry d = Some rs"
    and xs: "from_dict_each (StrObj name) rs = Inr xs"
    and c: "c = DataRecords_init (StrObj name) xs"
    by (auto simp: DataRecords_from_dict_def split: option.splits sum.splits)
  from xs have "rs = []" by (cases rs) auto
  with xs c show ?thesis by (auto simp: DataRecords_init_def)
qed

lemma build_lookup_videos_label:
  "build_lookup videos ''label'' = Inr [(Json (JStr ''cat''), [0, 2]), (Json (JStr ''dog''), [1])]"
  by (simp add: videos_records build_lookup_def enumerate_eq_zip getattr_def defaultdict_get_def)

lemma build_keyset_videos_label:
  "build_keyset videos ''label'' = Inr [Json (JStr ''dog''), Json (JStr ''cat'')]"
  by (simp add: videos_records build_keyset_def getattr_def)

section \<open>Round trip through the dictionary\<close>

text \<open>
  Claim C1 says that \<open>DataRecords.from_dict\<close>, applied without \<open>record_cls\<close> to the
  dictionary a container serializes to, gives back a container with the same record
  class and records. The code does not: on the dictionary of the spec's format there is
  no entry under \<open>_RECORD_CLS\<close> at the level of the container, and \<open>from_dict\<close> raises
  \<open>DataRecordsError\<close>; when the tag stands at the level of the container it is the name of
  the class, a string, and \<open>from_dict\<close> calls \<open>from_dict\<close> on that string, an
  \<open>AttributeError\<close>. With the record class given explicitly the same dictionary loads back
  to the container it came from.
\<close>

theorem round_trip_without_override_fails:
  "to_dict videos = Inr videos_dict
   \<and> DataRecords_from_dict videos_dict None = Inl (DataRecordsError Msg_need_record_cls)
   \<and> DataRecords_from_dict
       (videos_dict\<lparr>RECORD_CLS_entry := Some ''eta.core.data.LabeledVideoRecord''\<rparr>) None
       = Inl (AttributeError ''from_dict'')
   \<and> DataRecords_from_dict videos_dict (Some LabeledVideoRecord) = Inr videos"
proof (intro conjI)
  show "to_dict videos = Inr videos_dict"
    by (simp add: videos_records to_dict_def videos_dict_def attributes_def
        Serializable_attributes_def is_private_def LabeledVideoRecord_def)
  show "DataRecords_from_dict videos_dict None = Inl (DataRecordsError Msg_need_record_cls)"
    by (simp add: DataRecords_from_dict_def videos_dict_def)
  show "DataRecords_from_dict
       (videos_dict\<lparr>RECORD_CLS_entry := Some ''eta.core.data.LabeledVideoRecord''\<rparr>) None
       = Inl (AttributeError ''from_dict'')"
    by (simp add: DataRecords_from_dict_def videos_dict_def)
  show "DataRecords_from_dict videos_dict (Some LabeledVideoRecord) = Inr videos"
    by (simp add: videos_records DataRecords_from_dict_def videos_dict_def
        BaseDataRecord_from_dict_def optional_kwargs_def record_init_def
        BaseDataRecord_init_def clean_optional_def hasattr_def getattr_def setattr_def
        delattr_def DataRecords_init_def LabeledVideoRecord_def)
qed

section \<open>Culling by values to keep\<close>

text \<open>
  Claim C2, amended. In a container whose records all have the field, \<open>cull\<close> with a
  non-empty list \<open>V\<close> of values to keep, each of which is the value of some record, and no
  values to remove, succeeds; the records that survive are those whose value is in \<open>V\<close>,
  in their order, the result is their number, and the distinct values of the field
  afterwards are exactly \<open>V\<close> intersected with the distinct values before.
\<close>

theorem cull_keep_values:
  assumes has: "\<forall>r \<in> set (records self). hasattr r field"
    and ne: "V \<noteq> []"
    and occurs: "\<forall>v \<in> set V. \<exists>r \<in> set (records self). getattr r field = Inr v"
  shows "\<exists>ks n self' ks'.
           build_keyset self field = Inr ks
         \<and> cull self field (Some V) None = (Inr n, self')
         \<and> records self' = filter (\<lambda>r. \<exists>v \<in> set V. getattr r field = Inr v) (records self)
         \<and> n = length (records self')
         \<and> build_keyset self' field = Inr ks'
         \<and> set ks' = set V \<inter> set ks"
proof -
  let ?kept = "filter (\<lambda>r. \<exists>v \<in> set V. getattr r field = Inr v) (records self)"
  let ?self' = "self\<lparr>records := ?kept\<rparr>"
  from has obtain lud where lud: "build_lookup self field = Inr lud"
    using build_lookup_succeeds by blast
  from has obtain ks where ks: "build_keyset self field = Inr ks"
    using build_keyset_loop_succeeds [of "records self" field "[]"]
    by (auto simp: build_keyset_def)
  from has have "\<forall>r \<in> set (records ?self'). hasattr r field" by simp
  then obtain ks' where ks': "build_keyset ?self' field = Inr ks'"
    using build_keyset_loop_succeeds [of "records ?self'" field "[]"]
    by (auto simp: build_keyset_def)
  from occurs have sub: "\<forall>v \<in> set V. map_of lud v \<noteq> None"
    using build_lookup_entries(2) [OF lud] by blast
  have c: "cull self field (Some V) None = (Inr (length ?kept), ?self')"
    by (rule cull_keep [OF lud ne sub])
  have "set ks' = set V \<inter> set ks"
    unfolding build_keyset_set [OF ks'] build_keyset_set [OF ks] using occurs by auto
  with ks c ks' show ?thesis by simp
qed

theorem cull_keep_values_witness:
  "list_all (\<lambda>r. hasattr r ''label'') (records videos)
   \<and> [Json (JStr ''cat'')] \<noteq> []
   \<and> list_all (\<lambda>v. list_ex (\<lambda>r. getattr r ''label'' = Inr v) (records videos))
        [Json (JStr ''cat'')]
   \<and> fst (cull videos ''label'' (Some [Json (JStr ''cat'')]) None) = Inr 2
   \<and> records (snd (cull videos ''label'' (Some [Json (JStr ''cat'')]) None))
        = [records videos ! 0, records videos ! 2]
   \<and> (\<exists>ks n self' ks'.
           build_keyset videos ''label'' = Inr ks
         \<and> cull videos ''label'' (Some [Json (JStr ''cat'')]) None = (Inr n, self')
         \<and> records self' = filter (\<lambda>r. \<exists>v \<in> set [Json (JStr ''cat'')]. getattr r ''label'' = Inr v)
              (records videos)
         \<and> n = length (records self')
         \<and> build_keyset self' ''label'' = Inr ks'
         \<and> set ks' = set [Json (JStr ''cat'')] \<inter> set ks)"
proof -
  have has: "\<forall>r \<in> set (records videos). hasattr r ''label''"
    by (simp add: videos_records hasattr_def)
  have ne: "[Json (JStr ''cat'')] \<noteq> []" by simp
  have occurs: "\<forall>v \<in> set [Json (JStr ''cat'')].
      \<exists>r \<in> set (records videos). getattr r ''label'' = Inr v"
    by (simp add: videos_records getattr_def)
  note inst = cull_keep_values [OF has ne occurs]
  have 1: "list_all (\<lambda>r. hasattr r ''label'') (records videos)"
    using has by (simp only: list_all_iff)
  have 3: "list_all (\<lambda>v. list_ex (\<lambda>r. getattr r ''label'' = Inr v) (records videos))
        [Json (JStr ''cat'')]"
    using occurs by (simp only: list_all_iff list_ex_iff)
  have 4: "fst (cull videos ''label'' (Some [Json (JStr ''cat'')]) None) = Inr 2"
    by (simp add: cull_def build_lookup_videos_label keep_inds_def)
       (simp add: videos_records)
  have 5: "records (snd (cull videos ''label'' (Some [Json (JStr ''cat'')]) None))
        = [records videos ! 0, records videos ! 2]"
    by (simp add: cull_def build_lookup_videos_label keep_inds_def)
       (simp add: videos_records)
  show ?thesis
    by (intro conjI) (rule 1 ne 3 4 5 inst)+
qed

text \<open>
  Claim C2 as stated, for every field and every non-empty \<open>V\<close>, fails twice over. A field
  that some record lacks (here \<open>group\<close>, pruned from the first record) raises
  \<open>AttributeError\<close> when the lookup dictionary is built. A value to keep that no record
  holds raises \<open>KeyError\<close>, because the lookup dictionary is a plain \<open>dict\<close>. The container
  is unchanged in both cases.
\<close>

theorem cull_keep_values_fails:
  "cull videos ''group'' (Some [Json (JStr ''g1'')]) None = (Inl (AttributeError ''group''), videos)
   \<and> cull videos ''label'' (Some [Json (JStr ''bird'')]) None
       = (Inl (KeyError (Json (JStr ''bird''))), videos)"
proof
  have "build_lookup videos ''group'' = Inl (AttributeError ''group'')"
    by (simp add: videos_records build_lookup_def enumerate_eq_zip getattr_def)
  then show "cull videos ''group'' (Some [Json (JStr ''g1'')]) None
      = (Inl (AttributeError ''group''), videos)"
    by (simp add: cull_def)
  show "cull videos ''label'' (Some [Json (JStr ''bird'')]) None
       = (Inl (KeyError (Json (JStr ''bird''))), videos)"
    by (simp add: cull_def build_lookup_videos_label)
qed

section \<open>Culling by values to remove\<close>

text \<open>
  Claim C3. For every container, field and list \<open>D\<close>: when \<open>K\<close> is any list of exactly
  those distinct values of the field before the call (what \<open>build_keyset\<close> returns) that
  are not in \<open>D\<close>, \<open>cull\<close> with \<open>remove_values = D\<close> and \<open>cull\<close> with \<open>keep_values = K\<close>
  leave the container in the same state: the same records in the same order. When \<open>D\<close> is
  not empty the two calls also return the same value or raise the same exception.
\<close>

theorem cull_remove_is_keep_complement:
  assumes K: "\<And>ks. build_keyset self field = Inr ks \<Longrightarrow> set K = set ks - set D"
  shows "snd (cull self field (Some K) None) = snd (cull self field None (Some D))
       \<and> (D \<noteq> [] \<longrightarrow> cull self field (Some K) None = cull self field None (Some D))"
proof (cases "build_keyset self field")
  case (Inl e)
  have "\<not> (\<forall>r \<in> set (records self). hasattr r field)"
    using Inl build_keyset_loop_succeeds [of "records self" field "[]"]
    by (auto simp: build_keyset_def)
  then have "\<nexists>lud. build_lookup self field = Inr lud"
    using build_lookup_hasattr by blast
  then obtain e' where "build_lookup self field = Inl e'"
    by (cases "build_lookup self field") auto
  then show ?thesis by (simp add: cull_def)
next
  case (Inr ks)
  note ks = Inr
  note K = K [OF ks]
  have has: "\<forall>r \<in> set (records self). hasattr r field"
    using ks build_keyset_loop_hasattr [of "records self" field "[]" ks]
    by (auto simp: build_keyset_def)
  then obtain lud where lud: "build_lookup self field = Inr lud"
    using build_lookup_succeeds by blast
  note vals = build_keyset_set [OF ks]
  have inK: "v \<in> set K \<longleftrightarrow> (\<exists>r \<in> set (records self). getattr r field = Inr v) \<and> v \<notin> set D" for v
    using K vals by auto
  have sub: "\<forall>v \<in> set K. map_of lud v \<noteq> None"
    using inK build_lookup_entries(2) [OF lud] by blast
  have kept: "filter (\<lambda>r. \<exists>v \<in> set K. getattr r field = Inr v) (records self) =
      filter (\<lambda>r. \<exists>v. getattr r field = Inr v \<and> v \<notin> set D) (records self)"
  proof (rule filter_cong [OF refl])
    fix r assume "r \<in> set (records self)"
    with inK show "(\<exists>v \<in> set K. getattr r field = Inr v)
        \<longleftrightarrow> (\<exists>v. getattr r field = Inr v \<and> v \<notin> set D)"
      by blast
  qed
  have emptyK: "K = [] \<longleftrightarrow>
      (\<forall>r \<in> set (records self). \<forall>v. getattr r field = Inr v \<longrightarrow> v \<in> set D)"
  proof -
    have "K = [] \<longleftrightarrow> (\<forall>v. v \<notin> set K)" by (metis all_not_in_conv set_empty)
    also have "\<dots> \<longleftrightarrow> (\<forall>r \<in> set (records self). \<forall>v. getattr r field = Inr v \<longrightarrow> v \<in> set D)"
      using inK by blast
    finally show ?thesis .
  qed
  have keepK: "cull self field (Some K) None =
      (if K = [] then (Inl (DataRecordsError Msg_keep_or_remove), self)
       else (Inr (length (filter (\<lambda>r. \<exists>v. getattr r field = Inr v \<and> v \<notin> set D) (records self))),
             self\<lparr>records := filter (\<lambda>r. \<exists>v. getattr r field = Inr v \<and> v \<notin> set D)
                                 (records self)\<rparr>))"
  proof (cases "K = []")
    case True
    with lud show ?thesis by (simp add: cull_def)
  next
    case False
    with cull_keep [OF lud False sub] kept show ?thesis by simp
  qed
  show ?thesis
  proof (cases "D = []")
    case True
    have all: "filter (\<lambda>r. \<exists>v. getattr r field = Inr v \<and> v \<notin> set D) (records self) = records self"
      using has True by (auto simp: filter_id_conv hasattr_def getattr_def)
    from True lud have "cull self field None (Some D) = (Inl (DataRecordsError Msg_keep_or_remove), self)"
      by (simp add: cull_def)
    with keepK all True show ?thesis by simp
  next
    case False
    from cull_remove [OF lud False, of None] keepK emptyK
    have "cull self field (Some K) None = cull self field None (Some D)" by simp
    then show ?thesis by simp
  qed
qed

theorem cull_remove_is_keep_complement_witness:
  "build_keyset videos ''label'' = Inr [Json (JStr ''dog''), Json (JStr ''cat'')]
   \<and> set [Json (JStr ''cat'')]
       = set [Json (JStr ''dog''), Json (JStr ''cat'')] - set [Json (JStr ''dog''), Json (JStr ''bird'')]
   \<and> cull videos ''label'' (Some [Json (JStr ''cat'')]) None
       = cull videos ''label'' None (Some [Json (JStr ''dog''), Json (JStr ''bird'')])
   \<and> records (snd (cull videos ''label'' None (Some [Json (JStr ''dog''), Json (JStr ''bird'')])))
       = [records videos ! 0, records videos ! 2]"
proof -
  have K: "set [Json (JStr ''cat'')]
       = set [Json (JStr ''dog''), Json (JStr ''cat'')] - set [Json (JStr ''dog''), Json (JStr ''bird'')]"
    by auto
  have r: "records (snd (cull videos ''label'' (Some [Json (JStr ''cat'')]) None))
       = [records videos ! 0, records videos ! 2]"
    by (simp add: cull_def build_lookup_videos_label keep_inds_def)
       (simp add: videos_records)
  have Kv: "set [Json (JStr ''cat'')] = set ks - set [Json (JStr ''dog''), Json (JStr ''bird'')]"
    if "build_keyset videos ''label'' = Inr ks" for ks
    using that K by (simp add: build_keyset_videos_label)
  have "cull videos ''label'' (Some [Json (JStr ''cat'')]) None
       = cull videos ''label'' None (Some [Json (JStr ''dog''), Json (JStr ''bird'')])"
    using cull_remove_is_keep_complement
      [of videos "''label''" "[Json (JStr ''cat'')]" "[Json (JStr ''dog''), Json (JStr ''bird'')]",
       OF Kv]
    by simp
  with r K build_keyset_videos_label show ?thesis by simp
qed

section \<open>Both criteria given\<close>

text \<open>
  Claim C10. When \<open>remove_values\<close> is not empty, \<open>keep_values\<close> is overwritten before it
  is read: whatever was passed as \<open>keep_values\<close>, the call returns and leaves the container
  as the call with \<open>remove_values\<close> alone does. No exception is raised for passing both.
\<close>

theorem cull_remove_takes_precedence:
  assumes "remove_values \<noteq> []"
  shows "cull self field keep_values (Some remove_values)
       = cull self field None (Some remove_values)"
  using assms by (cases "build_lookup self field") (simp_all add: cull_def)

theorem cull_remove_takes_precedence_witness:
  "[Json (JStr ''dog'')] \<noteq> []
   \<and> cull videos ''label'' (Some [Json (JStr ''dog'')]) (Some [Json (JStr ''dog'')])
     = cull videos ''label'' None (Some [Json (JStr ''dog'')])
   \<and> fst (cull videos ''label'' None (Some [Json (JStr ''dog'')])) = Inr 2"
proof -
  have "fst (cull videos ''label'' None (Some [Json (JStr ''dog'')])) = Inr 2"
    by (simp add: cull_def build_lookup_videos_label keep_inds_def)
       (simp add: videos_records)
  with cull_remove_takes_precedence
    [of "[Json (JStr ''dog'')]" videos "''label''" "Some [Json (JStr ''dog'')]"]
  show ?thesis by simp
qed

end
